theory Spec2Isabelle
  imports Complex_Main
begin

section \<open>Strings of the G-code sender\<close>

text \<open>
  The sender (\<^verbatim>\<open>sender.py\<close>) works on Python \<^verbatim>\<open>str\<close> values. A string is modelled
  as a list of \<^typ>\<open>char\<close>, one element per code point, for code points below 256.
  The character classes are those Python uses on that range:
  \<^item> \<^verbatim>\<open>str.strip()\<close> and the regex class \<^verbatim>\<open>\s\<close> both use \<^verbatim>\<open>str.isspace\<close>:
    TAB, LF, VT, FF, CR, the separators 0x1C to 0x1F, space, NEL (0x85), NBSP (0xA0);
  \<^item> the regex class \<^verbatim>\<open>\d\<close> is the decimal digits, below 256 only 0 to 9;
  \<^item> the regex \<^verbatim>\<open>.\<close> is every character but LF.
\<close>

definition isspace :: "char \<Rightarrow> bool" where
  "isspace c = (c \<in> set [CHR 0x09, CHR 0x0A, CHR 0x0B, CHR 0x0C, CHR 0x0D,
                            CHR 0x1C, CHR 0x1D, CHR 0x1E, CHR 0x1F, CHR 0x20,
                            CHR 0x85, CHR 0xA0])"

definition isdigit :: "char \<Rightarrow> bool" where
  "isdigit c = (c \<in> set ''0123456789'')"

definition lstrip :: "string \<Rightarrow> string" where
  "lstrip s = dropWhile isspace s"

definition rstrip :: "string \<Rightarrow> string" where
  "rstrip s = rev (dropWhile isspace (rev s))"

definition strip :: "string \<Rightarrow> string" where
  "strip s = rstrip (lstrip s)"

definition startswith :: "string \<Rightarrow> string \<Rightarrow> bool" where
  "startswith s p = (take (length p) s = p)"

text \<open>
  \<^verbatim>\<open>str.upper()\<close> and \<^verbatim>\<open>str.lower()\<close>, on the letters a to z. The sender only looks
  for the letters X, Y, Z and the prefix \<^verbatim>\<open>ok\<close> in the result, and below 256 no other
  character is mapped to one of those by Python.
\<close>

definition upper_char :: "char \<Rightarrow> char" where
  "upper_char c = (case map_of (zip ''abcdefghijklmnopqrstuvwxyz'' ''ABCDEFGHIJKLMNOPQRSTUVWXYZ'') c of
                     Some u \<Rightarrow> u | None \<Rightarrow> c)"

definition lower_char :: "char \<Rightarrow> char" where
  "lower_char c = (case map_of (zip ''ABCDEFGHIJKLMNOPQRSTUVWXYZ'' ''abcdefghijklmnopqrstuvwxyz'') c of
                     Some u \<Rightarrow> u | None \<Rightarrow> c)"

definition upper :: "string \<Rightarrow> string" where
  "upper s = map upper_char s"

definition lower :: "string \<Rightarrow> string" where
  "lower s = map lower_char s"

section \<open>Line classifier\<close>

text \<open>
  \<^verbatim>\<open>GCODE_LINE_RE = re.compile(r"^\s*([GMT]\d+|;|#|\()")\<close>, used through
  \<^verbatim>\<open>GCODE_LINE_RE.match(ln)\<close>: the match is anchored at the start. The greedy
  \<^verbatim>\<open>\s*\<close> takes every leading whitespace character (each alternative starts with a
  character that is not whitespace, so giving one back never helps); then either one of
  G, M, T and at least one digit, or one of the three characters \<^verbatim>\<open>;\<close>, \<^verbatim>\<open>#\<close>, \<^verbatim>\<open>(\<close>.
\<close>

definition GCODE_LINE_RE_match :: "string \<Rightarrow> bool" where
  "GCODE_LINE_RE_match s =
     (case dropWhile isspace s of
        [] \<Rightarrow> False
      | c # cs \<Rightarrow>
          if c \<in> set ''GMT'' then (case cs of [] \<Rightarrow> False | d # _ \<Rightarrow> isdigit d)
          else c \<in> set '';#('')"

text \<open>
  \<^verbatim>\<open>
  def is_gcode_line(line: str) -> bool:
      ln = line.strip()
      return bool(ln and not ln.startswith((';', '(')) and GCODE_LINE_RE.match(ln))
  \<close>
\<close>

definition is_gcode_line :: "string \<Rightarrow> bool" where
  "is_gcode_line line =
     (let ln = strip line
      in ln \<noteq> [] \<and> \<not> (startswith ln '';'' \<or> startswith ln ''('') \<and> GCODE_LINE_RE_match ln)"

text \<open>
  \<^verbatim>\<open>COMMENT_RE = re.compile(r"\s*(;.*|\(.*\))\s*$")\<close>. \<open>COMMENT_RE_match s\<close> says that
  the pattern matches starting at the first character of \<open>s\<close>. The leading \<^verbatim>\<open>\s*\<close> takes
  all leading whitespace, since both alternatives start with a character that is not
  whitespace. After \<^verbatim>\<open>;\<close> the rest must be characters other than LF followed by
  whitespace up to the end: that is, the rest without its trailing whitespace holds no LF.
  After \<^verbatim>\<open>(\<close> the rest without its trailing whitespace must end with \<^verbatim>\<open>)\<close> and hold no
  LF before it; the greedy \<^verbatim>\<open>.*\<close> runs to that last \<^verbatim>\<open>)\<close>. A match always ends at the end
  of the string.
\<close>

definition COMMENT_RE_match :: "string \<Rightarrow> bool" where
  "COMMENT_RE_match s =
     (case dropWhile isspace s of
        [] \<Rightarrow> False
      | c # cs \<Rightarrow>
          if c = CHR '';'' then CHR 0x0A \<notin> set (rstrip cs)
          else if c = CHR ''('' then
            (let t = rstrip cs in t \<noteq> [] \<and> last t = CHR '')'' \<and> CHR 0x0A \<notin> set (butlast t))
          else False)"

text \<open>
  \<^verbatim>\<open>COMMENT_RE.sub("", line)\<close>: the regex engine tries the positions from the left and
  replaces the leftmost match by the empty string. The match ends at the end of the
  line, so what is left is the text before the position where the match starts.
\<close>

fun COMMENT_RE_sub :: "string \<Rightarrow> string" where
  "COMMENT_RE_sub [] = []"
| "COMMENT_RE_sub (c # cs) = (if COMMENT_RE_match (c # cs) then [] else c # COMMENT_RE_sub cs)"

text \<open>
  \<^verbatim>\<open>
  def strip_comment(line: str) -> str:
      return COMMENT_RE.sub("", line).strip()
  \<close>
\<close>

definition strip_comment :: "string \<Rightarrow> string" where
  "strip_comment line = strip (COMMENT_RE_sub line)"

section \<open>Program loader\<close>

text \<open>
  \<^verbatim>\<open>str.splitlines()\<close>: a line ends at LF, CR, CR LF, VT, FF, 0x1C, 0x1D, 0x1E or NEL
  (below 256); the line breaks are dropped, and a text that ends with a line break has
  no empty last line. \<open>cur\<close> is the line read so far.
\<close>

definition is_linebreak :: "char \<Rightarrow> bool" where
  "is_linebreak c = (c \<in> set [CHR 0x0A, CHR 0x0B, CHR 0x0C, CHR 0x0D,
                                 CHR 0x1C, CHR 0x1D, CHR 0x1E, CHR 0x85])"

fun splitlines_from :: "string \<Rightarrow> string \<Rightarrow> string list" where
  "splitlines_from cur [] = (if cur = [] then [] else [cur])"
| "splitlines_from cur (c # cs) =
     (if c = CHR 0x0D then
        (case cs of
           [] \<Rightarrow> [cur]
         | d # ds \<Rightarrow> if d = CHR 0x0A then cur # splitlines_from [] ds
                     else cur # splitlines_from [] (d # ds))
      else if is_linebreak c then cur # splitlines_from [] cs
      else splitlines_from (cur @ [c]) cs)"

definition splitlines :: "string \<Rightarrow> string list" where
  "splitlines text = splitlines_from [] text"

text \<open>
  The list comprehension of \<^verbatim>\<open>open_gcode\<close>:
  \<^verbatim>\<open>lines = [strip_comment(l) for l in raw if is_gcode_line(l)]\<close>
  with \<^verbatim>\<open>raw = f.read().splitlines()\<close>. The raw line is classified, then stripped.
\<close>

definition load_lines :: "string list \<Rightarrow> string list" where
  "load_lines raw = map strip_comment (filter is_gcode_line raw)"

definition load_program :: "string \<Rightarrow> string list" where
  "load_program text = load_lines (splitlines text)"

section \<open>Tool position scan\<close>

text \<open>
  \<^verbatim>\<open>re.findall(r"[XYZ]-?\d+\.?\d*", line.upper())\<close>. \<open>axis_token s\<close> is the match
  that starts at the first character of \<open>s\<close>, if there is one: an axis letter, an
  optional minus sign, one or more digits, an optional point, more digits. Every part is
  greedy, and no part after the first digits can fail, so there is no backtracking.
\<close>

definition axis_token :: "string \<Rightarrow> string option" where
  "axis_token s =
     (case s of
        [] \<Rightarrow> None
      | c # r \<Rightarrow>
          if c \<in> set ''XYZ'' then
            (let sgn = (if startswith r ''-'' then ''-'' else []);
                 r1 = drop (length sgn) r;
                 ds = takeWhile isdigit r1;
                 r2 = dropWhile isdigit r1;
                 dot = (if startswith r2 ''.'' then ''.'' else []);
                 fs = takeWhile isdigit (drop (length dot) r2)
             in if ds = [] then None else Some (c # sgn @ ds @ dot @ fs))
          else None)"

text \<open>
  \<^verbatim>\<open>findall\<close> returns the matches from left to right, without overlap: after a match
  the search goes on behind it. \<open>findall_axes k s\<close> scans \<open>s\<close> with the next \<open>k\<close>
  characters still inside the previous match.
\<close>

fun findall_axes :: "nat \<Rightarrow> string \<Rightarrow> string list" where
  "findall_axes k [] = []"
| "findall_axes (Suc k) (c # cs) = findall_axes k cs"
| "findall_axes 0 (c # cs) =
     (case axis_token (c # cs) of
        Some t \<Rightarrow> t # findall_axes (length t - 1) cs
      | None \<Rightarrow> findall_axes 0 cs)"

text \<open>
  \<^verbatim>\<open>float(c[1:])\<close> on the text behind the axis letter, which has the form
  \<^verbatim>\<open>-?\d+\.?\d*\<close>. The model keeps the exact decimal value as a rational number;
  Python rounds it to the nearest double. The claims about the position only depend on
  which value is taken, not on its rounding.
\<close>

definition digit_val :: "char \<Rightarrow> nat" where
  "digit_val c = of_char c - 48"

definition digits_val :: "string \<Rightarrow> nat" where
  "digits_val ds = foldl (\<lambda>a c. 10 * a + digit_val c) 0 ds"

definition py_float :: "string \<Rightarrow> rat" where
  "py_float s =
     (let neg = startswith s ''-'';
          r = (if neg then drop 1 s else s);
          ip = takeWhile isdigit r;
          r2 = dropWhile isdigit r;
          fp = (if startswith r2 ''.'' then takeWhile isdigit (drop 1 r2) else []);
          v = of_nat (digits_val ip) + of_nat (digits_val fp) / 10 ^ length fp
      in if neg then - v else v)"

text \<open>
  \<^verbatim>\<open>coords = {c[0]: float(c[1:]) for c in m}\<close>: a later match of the same axis letter
  overwrites an earlier one. \<^verbatim>\<open>coords.get(k, 0.0)\<close> is \<open>coords_get\<close>.
\<close>

definition coords_of :: "string list \<Rightarrow> (char \<rightharpoonup> rat)" where
  "coords_of m = foldl (\<lambda>d c. d(hd c \<mapsto> py_float (tl c))) Map.empty m"

definition coords_get :: "(char \<rightharpoonup> rat) \<Rightarrow> char \<Rightarrow> rat \<Rightarrow> rat" where
  "coords_get d k dflt = (case d k of Some v \<Rightarrow> v | None \<Rightarrow> dflt)"

section \<open>Sender state, worker and window\<close>

text \<open>
  \<^verbatim>\<open>
  @dataclass
  class SenderState:
      gcode_lines: List[str]
      index: int = 0
      running: bool = False
      paused: bool = False
      ok_to_send: bool = True
  \<close>
\<close>

record SenderState =
  gcode_lines :: "string list"
  index :: int
  running :: bool
  paused :: bool
  ok_to_send :: bool

definition new_SenderState :: "string list \<Rightarrow> SenderState" where
  "new_SenderState lines =
     \<lparr>gcode_lines = lines, index = 0, running = False, paused = False, ok_to_send = True\<rparr>"

text \<open>
  \<^verbatim>\<open>SerialWorker\<close>: the flag \<^verbatim>\<open>_running\<close> (\<open>w_running\<close>), the queue \<^verbatim>\<open>_tx\<close> (\<open>tx\<close>) and
  the state of its thread: \<open>Started\<close> after \<^verbatim>\<open>start()\<close> and before \<^verbatim>\<open>run\<close> has set the
  flag, \<open>Looping\<close> inside the loop of \<^verbatim>\<open>run\<close>, \<open>Finished\<close> once \<^verbatim>\<open>run\<close> has returned.
  \<^verbatim>\<open>QThread.isRunning()\<close> holds in the first two.
\<close>

datatype thread_state = Started | Looping | Finished

record SerialWorker =
  w_running :: bool
  tx :: "string list"
  thread :: thread_state

definition new_SerialWorker :: SerialWorker where
  "new_SerialWorker = \<lparr>w_running = False, tx = [], thread = Started\<rparr>"

definition worker_stop :: "SerialWorker \<Rightarrow> SerialWorker" where
  "worker_stop w = w\<lparr>w_running := False\<rparr>"

definition send_line :: "SerialWorker \<Rightarrow> string \<Rightarrow> SerialWorker" where
  "send_line w line = w\<lparr>tx := tx w @ [line]\<rparr>"

definition is_connected :: "SerialWorker \<Rightarrow> bool" where
  "is_connected w = w_running w"

definition isRunning :: "SerialWorker \<Rightarrow> bool" where
  "isRunning w = (thread w \<noteq> Finished)"


text \<open>
  The entries of the log widget: \<open>Sent\<close> for the arrow line that \<^verbatim>\<open>_tick\<close> writes for each
  program line, \<open>Received\<close> for the arrow line of \<^verbatim>\<open>on_line_received\<close>, \<open>Immediate\<close> and
  \<open>SimImmediate\<close> for the two messages of \<^verbatim>\<open>send_immediate\<close>, \<open>Info\<close> for the rest.
\<close>

datatype log_entry =
  Sent string | Received string | Immediate string | SimImmediate string | Info string

text \<open>
  The part of \<^verbatim>\<open>GCodeSenderWindow\<close> that the sender logic reads and writes: the state,
  the worker (\<^verbatim>\<open>None\<close> before the first connect), the tool marker of the preview, the
  log, whether the tick timer is active, and the number of \<^verbatim>\<open>QTimer.singleShot\<close>
  callbacks of \<^verbatim>\<open>_tick\<close> that have not fired yet (\<open>sim_acks\<close>).

  \<open>tool_marker\<close> is the attribute of \<^verbatim>\<open>Preview3D\<close>: \<open>None\<close>, or the artist last drawn, with
  its position. \<open>marker_on_axes\<close> says whether that artist is still a child of the axes:
  \<^verbatim>\<open>ax.clear()\<close> drops every artist, and the attribute keeps the old one until it is
  assigned again.
\<close>

record window =
  state :: SenderState
  worker :: "SerialWorker option"
  tool_marker :: "(rat \<times> rat \<times> rat) option"
  marker_on_axes :: bool
  log :: "log_entry list"
  timer_on :: bool
  sim_acks :: nat

definition init_window :: window where
  "init_window =
     \<lparr>state = new_SenderState [], worker = None, tool_marker = None, marker_on_axes = False,
      log = [], timer_on = False, sim_acks = 0\<rparr>"

text \<open>\<^verbatim>\<open>self.worker and self.worker.is_connected\<close>\<close>

definition worker_connected :: "window \<Rightarrow> bool" where
  "worker_connected s = (case worker s of None \<Rightarrow> False | Some w \<Rightarrow> is_connected w)"

text \<open>
  The exceptions of the sender logic: \<open>IndexError\<close> of a list read,
  \<open>ArtistRemoveError\<close>, the exception that \<^verbatim>\<open>Artist.remove()\<close> raises for an artist that
  is not on its axes any more, and \<open>PlotError\<close>, an exception raised while the preview is
  drawn.
\<close>

datatype py_error = IndexError | ArtistRemoveError | PlotError

datatype start_warning = NotConnected | NoGcode

text \<open>\<^verbatim>\<open>xs[i]\<close> on a Python list: a negative index counts from the end.\<close>

definition py_getitem :: "'a list \<Rightarrow> int \<Rightarrow> py_error + 'a" where
  "py_getitem xs i =
     (if 0 \<le> i \<and> i < int (length xs) then Inr (xs ! nat i)
      else if i < 0 \<and> - int (length xs) \<le> i then Inr (xs ! nat (int (length xs) + i))
      else Inl IndexError)"

section \<open>The tool marker of the preview\<close>

text \<open>
  \<^verbatim>\<open>
  def update_tool(self, x, y, z):
      if self.tool_marker:
          self.tool_marker.remove()
      self.tool_marker = self.ax.plot([x], [y], [z], ...)[0]
      self.canvas.draw_idle()
  \<close>
  \<^verbatim>\<open>remove()\<close> raises when the marker was dropped from the axes before; nothing is
  changed then.
\<close>

definition marker_ok :: "window \<Rightarrow> bool" where
  "marker_ok s = (tool_marker s = None \<or> marker_on_axes s)"

definition update_tool :: "window \<Rightarrow> rat \<times> rat \<times> rat \<Rightarrow> py_error + window" where
  "update_tool s p =
     (if tool_marker s \<noteq> None \<and> \<not> marker_on_axes s then Inl ArtistRemoveError
      else Inr (s\<lparr>tool_marker := Some p, marker_on_axes := True\<rparr>))"

text \<open>
  \<^verbatim>\<open>plot_gcode\<close>, as far as the marker goes: it starts with \<^verbatim>\<open>self.ax.clear()\<close> and ends
  with the marker drawn at the origin. Whether the drawing in between returns or raises
  is decided by the plotting library, not by the sender; \<open>drawn\<close> says which. When it
  raises, the axes are cleared and the attribute still holds the old marker; the left
  value holds the exception and the window at that statement.
\<close>

definition plot_gcode :: "window \<Rightarrow> bool \<Rightarrow> (py_error \<times> window) + window" where
  "plot_gcode s drawn =
     (let s1 = s\<lparr>marker_on_axes := False\<rparr>
      in if drawn then Inr (s1\<lparr>tool_marker := Some (0, 0, 0), marker_on_axes := True\<rparr>)
         else Inl (PlotError, s1))"

section \<open>Operations of the window\<close>

text \<open>
  \<^verbatim>\<open>connect_serial\<close>: a new worker is created and started unless the current one still
  has a live thread.
\<close>

definition connect_serial :: "window \<Rightarrow> window" where
  "connect_serial s =
     (let fresh = s\<lparr>worker := Some new_SerialWorker, log := log s @ [Info ''Connecting'']\<rparr>
      in case worker s of
           None \<Rightarrow> fresh
         | Some w \<Rightarrow> if \<not> isRunning w then fresh else s)"

definition disconnect_serial :: "window \<Rightarrow> window" where
  "disconnect_serial s =
     (case worker s of
        None \<Rightarrow> s
      | Some w \<Rightarrow>
          if isRunning w
          then s\<lparr>worker := Some (worker_stop w), log := log s @ [Info ''Serial disconnected.'']\<rparr>
          else s)"

text \<open>
  \<^verbatim>\<open>
  def open_gcode(self):
      path, _ = QFileDialog.getOpenFileName(...)
      if not path: return
      try:
          with open(path, "r", errors="ignore") as f:
              raw = f.read().splitlines()
          lines = [strip_comment(l) for l in raw if is_gcode_line(l)]
          self.state = SenderState(gcode_lines=lines)
          self.preview.plot_gcode(lines)
          self.log.clear()
          self.log.append(...)
          self.progress.setRange(0, len(lines)); self.progress.setValue(0)
          self._update_buttons()
      except Exception as e:
          QMessageBox.critical(self, "Error", ...)
  \<close>
  \<open>file\<close> is the text that \<^verbatim>\<open>f.read()\<close> returns, or \<open>None\<close> when the dialog is cancelled
  or the file cannot be read: then the window is left as it is. When \<^verbatim>\<open>plot_gcode\<close>
  raises, the handler is entered with the new state already installed: the log is not
  cleared and the marker is not drawn again.
\<close>

definition open_gcode :: "window \<Rightarrow> string option \<Rightarrow> bool \<Rightarrow> window" where
  "open_gcode s file drawn =
     (case file of
        None \<Rightarrow> s
      | Some text \<Rightarrow>
          (case plot_gcode (s\<lparr>state := new_SenderState (load_program text)\<rparr>) drawn of
             Inl (e, s1) \<Rightarrow> s1
           | Inr s1 \<Rightarrow> s1\<lparr>log := [Info ''Loaded'']\<rparr>))"

text \<open>
  \<^verbatim>\<open>
  def start_sending(self):
      if not self.worker or not self.worker.is_connected:
          QMessageBox.warning(self, "Not connected", "Connect to a port first."); return
      if not self.state.gcode_lines:
          QMessageBox.warning(self, "No G-code", "Load a G-code file first."); return
      self.state.running = True; self.state.paused = False; self.state.ok_to_send = True
      self.timer.start(1); self._update_buttons()
  \<close>
  A warning is the left value; the window is then unchanged.
\<close>

definition start_sending :: "window \<Rightarrow> start_warning + window" where
  "start_sending s =
     (if \<not> worker_connected s then Inl NotConnected
      else if gcode_lines (state s) = [] then Inl NoGcode
      else Inr (s\<lparr>state := (state s)\<lparr>running := True, paused := False, ok_to_send := True\<rparr>,
                  timer_on := True\<rparr>))"

definition pause_sending :: "window \<Rightarrow> window" where
  "pause_sending s =
     (if \<not> running (state s) then s
      else s\<lparr>state := (state s)\<lparr>paused := \<not> paused (state s)\<rparr>\<rparr>)"

text \<open>
  \<^verbatim>\<open>
  def stop_sending(self):
      self.state.running = False; self.state.paused = False; self.state.ok_to_send = True
      if self.worker: self.worker.stop()
      self.timer.stop(); self._update_buttons()
  \<close>
\<close>

definition stop_sending :: "window \<Rightarrow> window" where
  "stop_sending s =
     s\<lparr>state := (state s)\<lparr>running := False, paused := False, ok_to_send := True\<rparr>,
       worker := map_option worker_stop (worker s),
       timer_on := False\<rparr>"

definition send_immediate :: "window \<Rightarrow> string \<Rightarrow> window" where
  "send_immediate s cmd =
     (if worker_connected s
      then s\<lparr>worker := map_option (\<lambda>w. send_line w cmd) (worker s),
             log := log s @ [Immediate cmd]\<rparr>
      else s\<lparr>log := log s @ [SimImmediate cmd]\<rparr>)"

text \<open>
  \<^verbatim>\<open>
  def on_line_received(self, line: str):
      self.log.append(...)
      if line.strip().lower().startswith("ok"):
          self.state.ok_to_send = True
  \<close>
\<close>

definition is_ok_line :: "string \<Rightarrow> bool" where
  "is_ok_line line = startswith (lower (strip line)) ''ok''"

definition on_line_received :: "window \<Rightarrow> string \<Rightarrow> window" where
  "on_line_received s line =
     (let s1 = s\<lparr>log := log s @ [Received line]\<rparr>
      in if is_ok_line line then s1\<lparr>state := (state s1)\<lparr>ok_to_send := True\<rparr>\<rparr> else s1)"

text \<open>
  The tool marker update of \<^verbatim>\<open>_tick\<close>:
  \<^verbatim>\<open>
  m = re.findall(r"[XYZ]-?\d+\.?\d*", line.upper())
  coords = {c[0]: float(c[1:]) for c in m}
  x = coords.get("X", 0.0)
  y = coords.get("Y", 0.0)
  z = coords.get("Z", 0.0)
  \<close>
\<close>

definition tool_position :: "string \<Rightarrow> rat \<times> rat \<times> rat" where
  "tool_position line =
     (let m = findall_axes 0 (upper line);
          coords = coords_of m
      in (coords_get coords CHR ''X'' 0, coords_get coords CHR ''Y'' 0, coords_get coords CHR ''Z'' 0))"

text \<open>
  \<^verbatim>\<open>
  def _tick(self):
      if not self.state.running or self.state.paused: return
      if not self.state.ok_to_send: return
      if self.state.index >= len(self.state.gcode_lines):
          self.log.append("Completed."); self.stop_sending(); return
      line = self.state.gcode_lines[self.state.index]
      if self.worker and self.worker.is_connected:
          self.worker.send_line(line)
      self.log.append(...)
      ... x, y, z as above ...
      if hasattr(self.preview, "update_tool"):
          self.preview.update_tool(x, y, z)
      self.state.ok_to_send = False
      self.state.index += 1
      self.progress.setValue(self.state.index)
      if not self.worker or not self.worker.is_connected:
          QTimer.singleShot(20, lambda: self.on_line_received("ok"))
  \<close>
  An exception leaves \<^verbatim>\<open>_tick\<close> with the window as it is at that statement: the left
  value holds the exception and that window. The list read raises before anything is
  changed. \<^verbatim>\<open>update_tool\<close> raises after the line is put into the queue and into the log,
  and before the gate is closed, \<open>index\<close> is advanced and the simulated acknowledgment is
  scheduled.
\<close>

definition tick :: "window \<Rightarrow> (py_error \<times> window) + window" where
  "tick s =
     (if \<not> running (state s) \<or> paused (state s) then Inr s
      else if \<not> ok_to_send (state s) then Inr s
      else if int (length (gcode_lines (state s))) \<le> index (state s)
      then Inr (stop_sending (s\<lparr>log := log s @ [Info ''Completed.'']\<rparr>))
      else
        (case py_getitem (gcode_lines (state s)) (index (state s)) of
           Inl e \<Rightarrow> Inl (e, s)
         | Inr line \<Rightarrow>
             (let s1 = s\<lparr>worker := (if worker_connected s
                                      then map_option (\<lambda>w. send_line w line) (worker s)
                                      else worker s),
                         log := log s @ [Sent line]\<rparr>
              in case update_tool s1 (tool_position line) of
                   Inl e \<Rightarrow> Inl (e, s1)
                 | Inr s2 \<Rightarrow>
                     Inr (s2\<lparr>state := (state s2)\<lparr>ok_to_send := False,
                                                  index := index (state s2) + 1\<rparr>,
                            sim_acks := (if worker_connected s2 then sim_acks s2
                                         else sim_acks s2 + 1)\<rparr>))))"

section \<open>Events\<close>

text \<open>
  What can happen to a window: the buttons and slots of \<^verbatim>\<open>GCodeSenderWindow\<close>, the
  timer, and the steps of the worker thread. \<open>OpenGcode file drawn\<close> is \<^verbatim>\<open>open_gcode\<close>
  with the text read and with the outcome of the drawing. \<open>LineReceived\<close> is the signal
  \<^verbatim>\<open>line_received\<close> delivered to \<^verbatim>\<open>on_line_received\<close>; \<open>SimAck\<close> is a pending
  \<^verbatim>\<open>singleShot\<close> callback of \<^verbatim>\<open>_tick\<close> firing. \<open>RunBegin\<close> is \<^verbatim>\<open>run\<close> setting
  \<^verbatim>\<open>_running = True\<close> and entering its loop, \<open>RunTake\<close> is the loop taking a line from the
  queue, \<open>RunExit\<close> is the loop ending because the flag is off, \<open>RunFail\<close> is \<^verbatim>\<open>run\<close> ending
  through the exception handler (the flag is left as it is).
\<close>

datatype event =
    Connect | Disconnect | OpenGcode "string option" bool
  | Start | Pause | Stop | Tick
  | SendImmediate string | LineReceived string | SimAck
  | RunBegin | RunTake | RunExit | RunFail

definition worker_event :: "event \<Rightarrow> SerialWorker \<Rightarrow> SerialWorker" where
  "worker_event e w =
     (case e of
        RunBegin \<Rightarrow> if thread w = Started then w\<lparr>w_running := True, thread := Looping\<rparr> else w
      | RunTake \<Rightarrow> if thread w = Looping then w\<lparr>tx := tl (tx w)\<rparr> else w
      | RunExit \<Rightarrow> if thread w = Looping \<and> \<not> w_running w then w\<lparr>thread := Finished\<rparr> else w
      | RunFail \<Rightarrow> w\<lparr>thread := Finished\<rparr>
      | _ \<Rightarrow> w)"

text \<open>
  One event. A warning of \<^verbatim>\<open>start_sending\<close> leaves the window as it was; an exception
  in \<^verbatim>\<open>_tick\<close> leaves it as it was when the exception was raised. The timer calls
  \<^verbatim>\<open>_tick\<close> only while it is active.
\<close>

definition step :: "window \<Rightarrow> event \<Rightarrow> window" where
  "step s e =
     (case e of
        Connect \<Rightarrow> connect_serial s
      | Disconnect \<Rightarrow> disconnect_serial s
      | OpenGcode file drawn \<Rightarrow> open_gcode s file drawn
      | Start \<Rightarrow> (case start_sending s of Inl _ \<Rightarrow> s | Inr s' \<Rightarrow> s')
      | Pause \<Rightarrow> pause_sending s
      | Stop \<Rightarrow> stop_sending s
      | Tick \<Rightarrow> if timer_on s then (case tick s of Inl (_, s') \<Rightarrow> s' | Inr s' \<Rightarrow> s') else s
      | SendImmediate cmd \<Rightarrow> send_immediate s cmd
      | LineReceived line \<Rightarrow> on_line_received s line
      | SimAck \<Rightarrow> if 0 < sim_acks s then on_line_received (s\<lparr>sim_acks := sim_acks s - 1\<rparr>) ''ok''
                  else s
      | _ \<Rightarrow> s\<lparr>worker := map_option (worker_event e) (worker s)\<rparr>)"

definition run :: "window \<Rightarrow> event list \<Rightarrow> window" where
  "run s es = foldl step s es"

text \<open>The program lines that \<^verbatim>\<open>_tick\<close> has sent, as the log shows them.\<close>

fun is_sent :: "log_entry \<Rightarrow> bool" where
  "is_sent (Sent l) = True"
| "is_sent _ = False"

definition sent_count :: "window \<Rightarrow> nat" where
  "sent_count s = length (filter is_sent (log s))"

text \<open>The lines waiting in the queue of the worker.\<close>

definition queued :: "window \<Rightarrow> string list" where
  "queued s = (case worker s of None \<Rightarrow> [] | Some w \<Rightarrow> tx w)"

text \<open>The events that may open the gate \<open>ok_to_send\<close>.\<close>

fun opens_gate :: "event \<Rightarrow> bool" where
  "opens_gate (LineReceived line) = is_ok_line line"
| "opens_gate SimAck = True"
| "opens_gate (OpenGcode file drawn) = (file \<noteq> None)"
| "opens_gate Start = True"
| "opens_gate Stop = True"
| "opens_gate _ = False"

text \<open>The invariant of the sender state.\<close>

definition sender_inv :: "window \<Rightarrow> bool" where
  "sender_inv s =
     (0 \<le> index (state s) \<and> index (state s) \<le> int (length (gcode_lines (state s)))
      \<and> (paused (state s) \<longrightarrow> running (state s)))"

text \<open>The events that install a program: \<^verbatim>\<open>open_gcode\<close> with a file that was read.\<close>

fun loads_program :: "event \<Rightarrow> bool" where
  "loads_program (OpenGcode file drawn) = (file \<noteq> None)"
| "loads_program _ = False"

text \<open>
  The thread of the worker, if there is one, has entered \<^verbatim>\<open>run\<close> already: it is not
  between \<^verbatim>\<open>start()\<close> and the assignment \<^verbatim>\<open>_running = True\<close>.
\<close>

definition past_startup :: "window \<Rightarrow> bool" where
  "past_startup s = (case worker s of None \<Rightarrow> True | Some w \<Rightarrow> thread w \<noteq> Started)"

text \<open>
  \<^verbatim>\<open>_tick\<close> goes past its first two tests: the sender is running, it is not paused, and
  the gate is open.
\<close>

definition eligible :: "window \<Rightarrow> bool" where
  "eligible s = (running (state s) \<and> \<not> paused (state s) \<and> ok_to_send (state s))"

text \<open>
  What \<^verbatim>\<open>is_gcode_line\<close> checks on the trimmed line: it begins with \<^verbatim>\<open>#\<close>, or with one
  of G, M, T and a digit behind it.
\<close>

definition starts_digit :: "string \<Rightarrow> bool" where
  "starts_digit x = (case x of [] \<Rightarrow> False | d # _ \<Rightarrow> isdigit d)"

definition sendable_head :: "string \<Rightarrow> bool" where
  "sendable_head t =
     (case t of
        [] \<Rightarrow> False
      | c # cs \<Rightarrow> c = CHR ''#'' \<or> (c \<in> set ''GMT'' \<and> starts_digit cs))"



section \<open>The specification's wording\<close>

text \<open>
  \<open>isSendable\<close> as the specification words it: after trimming, the line is not empty,
  does not start with \<^verbatim>\<open>;\<close> or \<^verbatim>\<open>(\<close>, and begins with a letter from G, M, T followed by
  digits.
\<close>

definition isSendable_spec :: "string \<Rightarrow> bool" where
  "isSendable_spec line =
     (case strip line of
        [] \<Rightarrow> False
      | c # cs \<Rightarrow> c \<noteq> CHR '';'' \<and> c \<noteq> CHR ''('' \<and> c \<in> set ''GMT''
                  \<and> (case cs of [] \<Rightarrow> False | d # _ \<Rightarrow> isdigit d))"



section \<open>Sample runs\<close>

text \<open>
  The program of the specification's scenario, two lines, loaded and started on a
  connected worker.
\<close>

definition demo_text :: string where
  "demo_text = ''G0 X10'' @ [CHR 0x0A] @ ''G1 Y5 F100''"

definition demo_started :: window where
  "demo_started = run init_window [OpenGcode (Some demo_text) True, Connect, RunBegin, Start]"

text \<open>The worker is disconnected while the sender is running.\<close>

definition demo_disconnected :: window where
  "demo_disconnected = run demo_started [Disconnect]"



text \<open>Both lines are sent and acknowledged.\<close>

definition demo_done :: window where
  "demo_done = run demo_started [Tick, LineReceived ''ok'', Tick, LineReceived ''ok'']"

text \<open>Both lines are sent; the second one is not acknowledged.\<close>

definition demo_last_sent :: window where
  "demo_last_sent = run demo_started [Tick, LineReceived ''ok'', Tick]"


text \<open>
  An immediate command is sent first; the worker writes it, and the device answers it
  with \<^verbatim>\<open>ok\<close> after the first program line has been put into the queue.
\<close>

definition demo_immediate :: window where
  "demo_immediate =
     run demo_started [SendImmediate ''$X'', Tick, RunTake, LineReceived ''ok'', Tick]"

text \<open>
  The program is loaded twice, and the second time the drawing of the preview raises;
  then the worker is connected and the sender started.
\<close>

definition demo_stale :: window where
  "demo_stale =
     run init_window
       [OpenGcode (Some demo_text) True, OpenGcode (Some demo_text) False,
        Connect, RunBegin, Start]"

text \<open>
  The program is loaded, a worker is created, and the sender is stopped before the
  thread of the worker has entered \<^verbatim>\<open>run\<close>.
\<close>

definition demo_early_stop :: window where
  "demo_early_stop = run init_window [OpenGcode (Some demo_text) True, Connect, Stop]"

section \<open>Facts about trimming and the two regular expressions\<close>

lemma rstrip_append_rest: "rstrip s @ rev (takeWhile isspace (rev s)) = s"
proof -
  have "rev (takeWhile isspace (rev s) @ dropWhile isspace (rev s)) = s"
    by simp
  then show ?thesis
    unfolding rstrip_def rev_append .
qed



lemma strip_eq: "strip s = rstrip (dropWhile isspace s)"
  by (simp add: strip_def lstrip_def)

lemma strip_head_not_space: "strip s = c # cs \<Longrightarrow> \<not> isspace c"
proof
  assume eq: "strip s = c # cs" and sp: "isspace c"
  let ?t = "dropWhile isspace s"
  have "rstrip ?t @ rev (takeWhile isspace (rev ?t)) = ?t" by (rule rstrip_append_rest)
  with eq have t: "?t = c # (cs @ rev (takeWhile isspace (rev ?t)))"
    by (simp add: strip_eq)
  then obtain r where r: "?t = c # r" by blast
  then have "?t \<noteq> []" by (metis list.discI)
  then have "\<not> isspace (hd ?t)" by (rule hd_dropWhile)
  moreover from r have "hd ?t = c" by (metis list.sel(1))
  ultimately show False using sp by simp
qed


lemma strip_all_space: "\<forall>c\<in>set s. isspace c \<Longrightarrow> strip s = []"
proof -
  assume "\<forall>c\<in>set s. isspace c"
  then have d: "dropWhile isspace s = []" by simp
  show ?thesis unfolding strip_eq d by (simp add: rstrip_def)
qed

lemma is_gcode_line_head: "is_gcode_line line = sendable_head (strip line)"
proof (cases "strip line")
  case Nil
  then show ?thesis by (simp add: is_gcode_line_def sendable_head_def)
next
  case (Cons c cs)
  then have "\<not> isspace c" by (rule strip_head_not_space)
  with Cons show ?thesis
    by (auto simp: is_gcode_line_def sendable_head_def starts_digit_def GCODE_LINE_RE_match_def
          startswith_def)
qed









section \<open>The line classifier\<close>

text \<open>
  Claim C2, as amended. \<^verbatim>\<open>is_gcode_line\<close> returns true exactly when the trimmed line
  begins with \<^verbatim>\<open>#\<close>, or with one of G, M, T and a digit behind it. It returns false for
  every line of whitespace only and for every line that starts with \<^verbatim>\<open>;\<close> or \<^verbatim>\<open>(\<close>.
  Every line that the specification calls sendable is accepted, and an accepted line
  that does not start with \<^verbatim>\<open>#\<close> is sendable in the specification's sense. The claim
  itself fails on the lines that start with \<^verbatim>\<open>#\<close>: the regular expression lists that
  character, and the function only rejects \<^verbatim>\<open>;\<close> and \<^verbatim>\<open>(\<close> again.
\<close>

theorem C2_is_gcode_line:
  "is_gcode_line line = sendable_head (strip line)
   \<and> (list_all isspace line \<longrightarrow> \<not> is_gcode_line line)
   \<and> (startswith (strip line) '';'' \<or> startswith (strip line) ''('' \<longrightarrow> \<not> is_gcode_line line)
   \<and> (isSendable_spec line \<longrightarrow> is_gcode_line line)
   \<and> (is_gcode_line line \<and> \<not> startswith (strip line) ''#'' \<longrightarrow> isSendable_spec line)"
proof -
  have a: "is_gcode_line line = sendable_head (strip line)"
    by (rule is_gcode_line_head)
  have b: "list_all isspace line \<longrightarrow> \<not> is_gcode_line line"
    by (auto simp: a strip_all_space sendable_head_def list_all_iff)
  have c: "startswith (strip line) '';'' \<or> startswith (strip line) ''('' \<longrightarrow> \<not> is_gcode_line line"
    by (simp add: is_gcode_line_def)
  have d: "isSendable_spec line \<longrightarrow> is_gcode_line line"
    by (cases "strip line") (auto simp: a isSendable_spec_def sendable_head_def starts_digit_def)
  have e: "is_gcode_line line \<and> \<not> startswith (strip line) ''#'' \<longrightarrow> isSendable_spec line"
    by (cases "strip line")
       (auto simp: a isSendable_spec_def sendable_head_def starts_digit_def startswith_def)
  from a b c d e show ?thesis by blast
qed

theorem C2_is_gcode_line_witness:
  "list_all isspace ''   '' \<and> \<not> is_gcode_line ''   ''
   \<and> startswith (strip '' ; G1'') '';'' \<and> \<not> is_gcode_line '' ; G1''
   \<and> isSendable_spec '' G1 X1'' \<and> is_gcode_line '' G1 X1''
   \<and> \<not> startswith (strip '' G1 X1'') ''#''"
proof -
  have h: "list_all isspace ''   '' \<and> startswith (strip '' ; G1'') '';''
           \<and> isSendable_spec '' G1 X1'' \<and> \<not> startswith (strip '' G1 X1'') ''#''"
    by code_simp
  from h C2_is_gcode_line [of "''   ''"] C2_is_gcode_line [of "'' ; G1''"]
    C2_is_gcode_line [of "'' G1 X1''"]
  show ?thesis by blast
qed

theorem C2_counterexample: "is_gcode_line ''#1'' \<and> \<not> isSendable_spec ''#1''"
  by code_simp

text \<open>
  Claim C3 at a sendable line with a comment in the middle and a comment at the end:
  \<^verbatim>\<open>strip_comment\<close> removes everything from the first parenthesis on, the word \<^verbatim>\<open>X1\<close>
  included. Nothing but the trailing \<^verbatim>\<open>(b)\<close> should go.
\<close>

theorem C3_strip_comment_greedy:
  "is_gcode_line ''G1 (a) X1 (b)'' \<and> strip_comment ''G1 (a) X1 (b)'' = ''G1''
   \<and> strip_comment ''G1 (a) X1 (b)'' \<noteq> ''G1 (a) X1''"
  by code_simp

section \<open>Facts about the loader\<close>

















section \<open>The loader\<close>




section \<open>Facts about the operations\<close>

lemmas op_defs = step_def connect_serial_def disconnect_serial_def open_gcode_def
  plot_gcode_def start_sending_def pause_sending_def stop_sending_def send_immediate_def
  on_line_received_def new_SenderState_def Let_def

lemma run_Nil: "run s [] = s"
  by (simp add: run_def)

lemma run_Cons: "run s (e # es) = run (step s e) es"
  by (simp add: run_def)

lemma py_getitem_in_range:
  "0 \<le> i \<Longrightarrow> i < int (length xs) \<Longrightarrow> py_getitem xs i = Inr (xs ! nat i)"
  by (simp add: py_getitem_def)

text \<open>The ways in which \<^verbatim>\<open>_tick\<close> ends.\<close>

lemma tick_idle: "\<not> eligible s \<Longrightarrow> tick s = Inr s"
  by (auto simp: tick_def eligible_def)

lemma tick_complete:
  "eligible s \<Longrightarrow> int (length (gcode_lines (state s))) \<le> index (state s) \<Longrightarrow>
   tick s = Inr (stop_sending (s\<lparr>log := log s @ [Info ''Completed.'']\<rparr>))"
  by (simp add: tick_def eligible_def)

lemma tick_send:
  assumes "eligible s" and "index (state s) < int (length (gcode_lines (state s)))"
    and "py_getitem (gcode_lines (state s)) (index (state s)) = Inr line"
  shows "tick s =
     (if marker_ok s
      then Inr (s\<lparr>worker := (if worker_connected s
                              then map_option (\<lambda>w. send_line w line) (worker s)
                              else worker s),
                 log := log s @ [Sent line],
                 tool_marker := Some (tool_position line),
                 marker_on_axes := True,
                 state := (state s)\<lparr>ok_to_send := False, index := index (state s) + 1\<rparr>,
                 sim_acks := (if worker_connected s then sim_acks s else sim_acks s + 1)\<rparr>)
      else Inl (ArtistRemoveError,
                s\<lparr>worker := (if worker_connected s
                              then map_option (\<lambda>w. send_line w line) (worker s)
                              else worker s),
                  log := log s @ [Sent line]\<rparr>))"
  using assms
  by (cases "worker s")
     (auto simp: tick_def eligible_def update_tool_def marker_ok_def worker_connected_def
        is_connected_def send_line_def Let_def)

lemma tick_index_error:
  assumes "eligible s" and "index (state s) < int (length (gcode_lines (state s)))"
    and "py_getitem (gcode_lines (state s)) (index (state s)) = Inl e"
  shows "tick s = Inl (e, s)"
  using assms by (simp add: tick_def eligible_def)

lemmas tick_defs = tick_def update_tool_def

lemma step_gate:
  "\<not> ok_to_send (state s) \<Longrightarrow> ok_to_send (state (step s e)) \<Longrightarrow> opens_gate e"
  by (cases e)
     (auto simp: op_defs tick_defs split: option.splits if_splits sum.splits prod.splits)

lemma tick_gate_returned:
  "tick s = Inr s' \<Longrightarrow>
   (ok_to_send (state s') \<longrightarrow> ok_to_send (state s))
   \<and> (sent_count s' \<noteq> sent_count s \<longrightarrow>
        sent_count s' = sent_count s + 1 \<and> \<not> ok_to_send (state s'))"
  by (auto simp: tick_defs stop_sending_def sent_count_def Let_def
        split: if_splits sum.splits)

lemma tick_gate_raised: "tick s = Inl (e, s') \<Longrightarrow> state s' = state s"
  by (auto simp: tick_defs Let_def split: if_splits sum.splits)

lemma step_sent_budget:
  "marker_ok s \<Longrightarrow> \<not> opens_gate e \<Longrightarrow>
   marker_ok (step s e)
   \<and> sent_count (step s e) + (if ok_to_send (state (step s e)) then 1 else 0)
        \<le> sent_count s + (if ok_to_send (state s) then 1 else 0)"
  by (cases e)
     (auto simp: op_defs tick_defs sent_count_def marker_ok_def
        split: option.splits if_splits sum.splits prod.splits)

lemma run_sent_budget:
  "marker_ok s \<Longrightarrow> list_all (\<lambda>e. \<not> opens_gate e) es \<Longrightarrow>
   sent_count (run s es) + (if ok_to_send (state (run s es)) then 1 else 0)
     \<le> sent_count s + (if ok_to_send (state s) then 1 else 0)"
proof (induction es arbitrary: s)
  case Nil
  then show ?case by (simp add: run_Nil)
next
  case (Cons e es)
  from Cons.prems have e: "\<not> opens_gate e" and es: "list_all (\<lambda>e. \<not> opens_gate e) es"
    by simp_all
  note st = step_sent_budget [OF Cons.prems(1) e]
  from st have m: "marker_ok (step s e)" by simp
  have "sent_count (run (step s e) es) + (if ok_to_send (state (run (step s e) es)) then 1 else 0)
          \<le> sent_count (step s e) + (if ok_to_send (state (step s e)) then 1 else 0)"
    using m es by (rule Cons.IH)
  also from st have "\<dots> \<le> sent_count s + (if ok_to_send (state s) then 1 else 0)"
    by simp
  finally show ?case by (simp add: run_Cons)
qed

lemma step_inv: "sender_inv s \<Longrightarrow> sender_inv (step s e)"
  by (cases e)
     (auto simp: op_defs tick_defs sender_inv_def
        split: option.splits if_splits sum.splits prod.splits)

lemma run_inv: "sender_inv s \<Longrightarrow> sender_inv (run s es)"
  by (induction es arbitrary: s) (simp_all add: run_Nil run_Cons step_inv)

lemma init_inv: "sender_inv init_window"
  by (simp add: sender_inv_def init_window_def new_SenderState_def)

section \<open>The flow-control gate\<close>

lemma tick_queue_returned:
  "tick s = Inr s' \<Longrightarrow>
   queued s' = queued s
   \<or> (\<exists>line. queued s' = queued s @ [line] \<and> log s' = log s @ [Sent line])"
  by (cases "worker s")
     (auto simp: tick_defs stop_sending_def queued_def worker_stop_def send_line_def
        worker_connected_def Let_def split: if_splits sum.splits)

text \<open>
  Claim C1, as amended. An event that finds the gate \<open>ok_to_send\<close> closed and leaves it
  open is an inbound line that starts with \<^verbatim>\<open>ok\<close> after trimming and lower-casing (from
  the worker or from the simulated acknowledgment of \<^verbatim>\<open>_tick\<close>), a load, a start or a
  stop. \<^verbatim>\<open>_tick\<close> never opens the gate, and a tick that returns after sending a line has
  sent one line and closed the gate; what it adds to the queue of the worker is the line
  that it writes to the log, and nothing else. So between two such events at most one
  program line is sent, as long as the marker of the preview can be redrawn. The
  claim's conclusion does not follow: every \<^verbatim>\<open>ok\<close> line opens the gate, also the answer
  to an immediate command, while a program line is still waiting.
\<close>

theorem C1_ok_to_send_gate:
  "(\<not> ok_to_send (state s) \<and> ok_to_send (state (step s e)) \<longrightarrow> opens_gate e)
   \<and> (case tick s of
         Inl (err, s') \<Rightarrow> ok_to_send (state s') = ok_to_send (state s)
       | Inr s' \<Rightarrow>
           (ok_to_send (state s') \<longrightarrow> ok_to_send (state s))
           \<and> (sent_count s' \<noteq> sent_count s \<longrightarrow>
                sent_count s' = sent_count s + 1 \<and> \<not> ok_to_send (state s'))
           \<and> (queued s' = queued s
                \<or> (\<exists>line. queued s' = queued s @ [line] \<and> log s' = log s @ [Sent line])))
   \<and> (marker_ok s \<and> list_all (\<lambda>e. \<not> opens_gate e) es \<longrightarrow>
        sent_count (run s es) \<le> sent_count s + 1
        \<and> (\<not> ok_to_send (state s) \<longrightarrow> sent_count (run s es) \<le> sent_count s))"
proof -
  have a: "\<not> ok_to_send (state s) \<and> ok_to_send (state (step s e)) \<longrightarrow> opens_gate e"
    using step_gate by blast
  have b: "case tick s of
         Inl (err, s') \<Rightarrow> ok_to_send (state s') = ok_to_send (state s)
       | Inr s' \<Rightarrow>
           (ok_to_send (state s') \<longrightarrow> ok_to_send (state s))
           \<and> (sent_count s' \<noteq> sent_count s \<longrightarrow>
                sent_count s' = sent_count s + 1 \<and> \<not> ok_to_send (state s'))
           \<and> (queued s' = queued s
                \<or> (\<exists>line. queued s' = queued s @ [line] \<and> log s' = log s @ [Sent line]))"
  proof (cases "tick s")
    case (Inl p)
    obtain err s' where p: "p = (err, s')" by (cases p)
    with Inl have "state s' = state s" by (simp add: tick_gate_raised)
    with Inl p show ?thesis by simp
  next
    case (Inr s')
    with tick_gate_returned [of s s'] tick_queue_returned [of s s'] show ?thesis by simp
  qed
  have c: "marker_ok s \<and> list_all (\<lambda>e. \<not> opens_gate e) es \<longrightarrow>
        sent_count (run s es) \<le> sent_count s + 1
        \<and> (\<not> ok_to_send (state s) \<longrightarrow> sent_count (run s es) \<le> sent_count s)"
  proof
    assume "marker_ok s \<and> list_all (\<lambda>e. \<not> opens_gate e) es"
    then have "sent_count (run s es) + (if ok_to_send (state (run s es)) then 1 else 0)
                 \<le> sent_count s + (if ok_to_send (state s) then 1 else 0)"
      using run_sent_budget [of s es] by blast
    then show "sent_count (run s es) \<le> sent_count s + 1
        \<and> (\<not> ok_to_send (state s) \<longrightarrow> sent_count (run s es) \<le> sent_count s)"
      by (auto split: if_splits)
  qed
  from a b c show ?thesis by blast
qed

theorem C1_ok_to_send_gate_witness:
  "\<not> ok_to_send (state (step demo_started Tick))
   \<and> ok_to_send (state (step (step demo_started Tick) (LineReceived '' OK'')))
   \<and> opens_gate (LineReceived '' OK'')
   \<and> marker_ok demo_started
   \<and> list_all (\<lambda>e. \<not> opens_gate e) [Tick, Pause, Pause, Tick, LineReceived ''error:1'', Tick]
   \<and> sent_count (run demo_started [Tick, Pause, Pause, Tick, LineReceived ''error:1'', Tick])
        \<le> sent_count demo_started + 1
   \<and> (case tick demo_started of
         Inl p \<Rightarrow> False
       | Inr s' \<Rightarrow> sent_count s' = sent_count demo_started + 1 \<and> \<not> ok_to_send (state s'))"
proof -
  have h1: "\<not> ok_to_send (state (step demo_started Tick))
            \<and> ok_to_send (state (step (step demo_started Tick) (LineReceived '' OK'')))"
    by code_simp
  have h2: "marker_ok demo_started
            \<and> list_all (\<lambda>e. \<not> opens_gate e)
                 [Tick, Pause, Pause, Tick, LineReceived ''error:1'', Tick]"
    by code_simp
  have h3: "case tick demo_started of
              Inl p \<Rightarrow> False | Inr s' \<Rightarrow> sent_count s' \<noteq> sent_count demo_started"
    by code_simp
  from h1 C1_ok_to_send_gate [of "step demo_started Tick" "LineReceived '' OK''" "[]"]
  have g1: "opens_gate (LineReceived '' OK'')" by blast
  from h2 C1_ok_to_send_gate [of demo_started Tick
      "[Tick, Pause, Pause, Tick, LineReceived ''error:1'', Tick]"]
  have g2: "sent_count (run demo_started [Tick, Pause, Pause, Tick, LineReceived ''error:1'', Tick])
        \<le> sent_count demo_started + 1" by blast
  from h3 C1_ok_to_send_gate [of demo_started Tick "[]"]
  have g3: "case tick demo_started of
         Inl p \<Rightarrow> False
       | Inr s' \<Rightarrow> sent_count s' = sent_count demo_started + 1 \<and> \<not> ok_to_send (state s')"
    by (cases "tick demo_started") auto
  from h1 h2 g1 g2 g3 show ?thesis by blast
qed

theorem C1_counterexample:
  "log demo_immediate
     = [Info ''Loaded'', Info ''Connecting'', Immediate ''$X'', Sent ''G0 X10'',
        Received ''ok'', Sent ''G1 Y5 F100'']
   \<and> queued demo_immediate = [''G0 X10'', ''G1 Y5 F100'']"
  by code_simp

section \<open>The invariant of the sender state\<close>

lemma step_index:
  "index (state (step s e)) = index (state s)
   \<or> (e = Tick \<and> index (state (step s e)) = index (state s) + 1
        \<and> sent_count (step s e) = sent_count s + 1)
   \<or> (loads_program e \<and> index (state (step s e)) = 0)"
  by (cases e)
     (auto simp: op_defs tick_defs sent_count_def
        split: option.splits if_splits sum.splits prod.splits)

lemma tick_sent_index:
  "marker_ok s \<Longrightarrow> sent_count (step s Tick) \<noteq> sent_count s \<Longrightarrow>
   index (state (step s Tick)) = index (state s) + 1"
  by (auto simp: step_def tick_defs stop_sending_def sent_count_def marker_ok_def Let_def
        split: if_splits sum.splits prod.splits)

text \<open>
  Claim C9. In the initial window and after every sequence of events from it, \<open>index\<close>
  lies between 0 and the length of the program, and \<open>paused\<close> implies \<open>running\<close>; every
  single event keeps this. An event leaves \<open>index\<close> as it is, or it is a tick that sends
  one line and adds one to \<open>index\<close>, or it is a load, which sets \<open>index\<close> to 0. A tick
  that sends a line adds one to \<open>index\<close> when the marker of the preview can be redrawn.

  It does not on a window whose preview could not be drawn at the last load. There the
  first tick puts the first line into the queue of the worker and into the log, and
  leaves \<^verbatim>\<open>_tick\<close> at \<^verbatim>\<open>update_tool\<close>: \<open>index\<close> is still 0 and the gate is still open.
  The next ticks send the same line again. The claim says that \<open>index\<close> advances by one
  for every line that is sent.
\<close>

theorem C9_index_and_sent_lines:
  "sender_inv init_window
   \<and> sender_inv (run init_window es)
   \<and> (sender_inv s \<longrightarrow> sender_inv (step s e))
   \<and> (index (state (step s e)) = index (state s)
       \<or> (e = Tick \<and> index (state (step s e)) = index (state s) + 1
            \<and> sent_count (step s e) = sent_count s + 1)
       \<or> (loads_program e \<and> index (state (step s e)) = 0))
   \<and> (marker_ok s \<and> sent_count (step s Tick) \<noteq> sent_count s \<longrightarrow>
        index (state (step s Tick)) = index (state s) + 1)
   \<and> sender_inv demo_stale
   \<and> index (state demo_stale) = 0
   \<and> queued demo_stale = []
   \<and> (case tick demo_stale of
         Inl (err, s') \<Rightarrow> err = ArtistRemoveError
       | Inr s' \<Rightarrow> False)
   \<and> index (state (run demo_stale [Tick])) = 0
   \<and> queued (run demo_stale [Tick]) = [''G0 X10'']
   \<and> sent_count (run demo_stale [Tick]) = sent_count demo_stale + 1
   \<and> ok_to_send (state (run demo_stale [Tick]))
   \<and> index (state (run demo_stale [Tick, Tick, Tick])) = 0
   \<and> queued (run demo_stale [Tick, Tick, Tick]) = [''G0 X10'', ''G0 X10'', ''G0 X10'']"
proof -
  have a: "sender_inv init_window \<and> sender_inv (run init_window es)"
    using init_inv run_inv [OF init_inv, of es] by blast
  have b: "sender_inv s \<longrightarrow> sender_inv (step s e)"
    using step_inv by blast
  have c: "marker_ok s \<and> sent_count (step s Tick) \<noteq> sent_count s \<longrightarrow>
        index (state (step s Tick)) = index (state s) + 1"
    using tick_sent_index by blast
  have d: "sender_inv demo_stale
   \<and> index (state demo_stale) = 0
   \<and> queued demo_stale = []
   \<and> (case tick demo_stale of
         Inl (err, s') \<Rightarrow> err = ArtistRemoveError
       | Inr s' \<Rightarrow> False)
   \<and> index (state (run demo_stale [Tick])) = 0
   \<and> queued (run demo_stale [Tick]) = [''G0 X10'']
   \<and> sent_count (run demo_stale [Tick]) = sent_count demo_stale + 1
   \<and> ok_to_send (state (run demo_stale [Tick]))
   \<and> index (state (run demo_stale [Tick, Tick, Tick])) = 0
   \<and> queued (run demo_stale [Tick, Tick, Tick]) = [''G0 X10'', ''G0 X10'', ''G0 X10'']"
    by code_simp
  from a b c d step_index [of s e] show ?thesis by blast
qed

theorem C9_index_and_sent_lines_witness:
  "sender_inv (step demo_started Tick)
   \<and> sender_inv (step (step demo_started Tick) Pause)
   \<and> paused (state (step (step demo_started Tick) Pause))
   \<and> running (state (step (step demo_started Tick) Pause))
   \<and> marker_ok demo_started
   \<and> sent_count (step demo_started Tick) \<noteq> sent_count demo_started
   \<and> index (state (step demo_started Tick)) = index (state demo_started) + 1
   \<and> index (state demo_started) = 0
   \<and> length (gcode_lines (state demo_started)) = 2"
proof -
  have h: "sender_inv (step demo_started Tick)"
    by code_simp
  have m: "marker_ok demo_started \<and> sent_count (step demo_started Tick) \<noteq> sent_count demo_started"
    by code_simp
  have r: "paused (state (step (step demo_started Tick) Pause))
   \<and> running (state (step (step demo_started Tick) Pause))
   \<and> index (state demo_started) = 0
   \<and> length (gcode_lines (state demo_started)) = 2"
    by code_simp
  from h C9_index_and_sent_lines [of "[]" "step demo_started Tick" Pause]
  have g1: "sender_inv (step (step demo_started Tick) Pause)" by blast
  from m C9_index_and_sent_lines [of "[]" demo_started Tick]
  have g2: "index (state (step demo_started Tick)) = index (state demo_started) + 1" by blast
  from h m r g1 g2 show ?thesis by blast
qed

section \<open>Completion\<close>

lemma step_done:
  "\<not> loads_program e \<Longrightarrow> int (length (gcode_lines (state s))) \<le> index (state s) \<Longrightarrow>
   gcode_lines (state (step s e)) = gcode_lines (state s)
   \<and> index (state (step s e)) = index (state s)
   \<and> sent_count (step s e) = sent_count s"
  by (cases e)
     (auto simp: op_defs tick_defs sent_count_def
        split: option.splits if_splits sum.splits prod.splits)

lemma run_done:
  "list_all (\<lambda>e. \<not> loads_program e) es \<Longrightarrow>
   int (length (gcode_lines (state s))) \<le> index (state s) \<Longrightarrow>
   gcode_lines (state (run s es)) = gcode_lines (state s)
   \<and> index (state (run s es)) = index (state s)
   \<and> sent_count (run s es) = sent_count s"
proof (induction es arbitrary: s)
  case Nil
  then show ?case by (simp add: run_Nil)
next
  case (Cons e es)
  from Cons.prems have e: "\<not> loads_program e"
    and es: "list_all (\<lambda>e. \<not> loads_program e) es"
    by simp_all
  note st = step_done [OF e Cons.prems(2)]
  from st Cons.prems(2)
  have "int (length (gcode_lines (state (step s e)))) \<le> index (state (step s e))"
    by simp
  from Cons.IH [OF es this] st show ?case by (simp add: run_Cons)
qed

lemma tick_step_done:
  "int (length (gcode_lines (state s))) \<le> index (state s) \<Longrightarrow>
   map_option tx (worker (step s Tick)) = map_option tx (worker s)
   \<and> (running (state (step s Tick)) \<longrightarrow> running (state s))"
  by (cases "worker s")
     (auto simp: step_def tick_def stop_sending_def worker_stop_def split: if_splits)

lemma ticks_done:
  "int (length (gcode_lines (state s))) \<le> index (state s) \<Longrightarrow>
   map_option tx (worker (run s (replicate n Tick))) = map_option tx (worker s)
   \<and> (running (state (run s (replicate n Tick))) \<longrightarrow> running (state s))"
proof (induction n arbitrary: s)
  case 0
  then show ?case by (simp add: run_Nil)
next
  case (Suc n)
  have "\<not> loads_program Tick" by simp
  from step_done [OF this Suc.prems] Suc.prems
  have "int (length (gcode_lines (state (step s Tick)))) \<le> index (state (step s Tick))"
    by simp
  from Suc.IH [OF this] tick_step_done [OF Suc.prems]
  show ?case by (simp add: run_Cons)
qed

lemma ticks_gate_closed: "\<not> ok_to_send (state s) \<Longrightarrow> run s (replicate n Tick) = s"
proof (induction n)
  case 0
  then show ?case by (simp add: run_Nil)
next
  case (Suc n)
  then have "step s Tick = s" by (simp add: step_def tick_def)
  with Suc show ?case by (simp add: run_Cons)
qed

text \<open>
  Claim C7, as amended. Let \<open>index\<close> have reached the length of the program. No sequence
  of events without a load changes \<open>index\<close> or sends a program line; in particular no
  number of ticks does, and ticks put nothing into the queue of the worker and never
  turn \<open>running\<close> on again. The sender goes idle at the tick that finds it running, not
  paused and the gate open: that tick returns with \<open>running\<close> off and the timer stopped.
  While the gate is closed, ticks change nothing, so the sender stays running until the
  last line is acknowledged. The claim itself fails there: \<open>index\<close> reaches the length
  with the gate closed.
\<close>

theorem C7_completion:
  assumes "int (length (gcode_lines (state s))) \<le> index (state s)"
  shows "(running (state s) \<and> \<not> paused (state s) \<and> ok_to_send (state s) \<longrightarrow>
            (case tick s of
               Inl err \<Rightarrow> False
             | Inr s' \<Rightarrow> \<not> running (state s') \<and> \<not> paused (state s') \<and> \<not> timer_on s'))
         \<and> (list_all (\<lambda>e. \<not> loads_program e) es \<longrightarrow>
              sent_count (run s es) = sent_count s
              \<and> index (state (run s es)) = index (state s)
              \<and> gcode_lines (state (run s es)) = gcode_lines (state s))
         \<and> sent_count (run s (replicate n Tick)) = sent_count s
         \<and> map_option tx (worker (run s (replicate n Tick))) = map_option tx (worker s)
         \<and> (\<not> running (state s) \<longrightarrow> \<not> running (state (run s (replicate n Tick))))
         \<and> (\<not> ok_to_send (state s) \<longrightarrow> run s (replicate n Tick) = s)"
proof -
  have a: "running (state s) \<and> \<not> paused (state s) \<and> ok_to_send (state s) \<longrightarrow>
            (case tick s of
               Inl err \<Rightarrow> False
             | Inr s' \<Rightarrow> \<not> running (state s') \<and> \<not> paused (state s') \<and> \<not> timer_on s')"
    using tick_complete [OF _ assms] by (auto simp: stop_sending_def eligible_def)
  have b: "list_all (\<lambda>e. \<not> loads_program e) es \<longrightarrow>
              sent_count (run s es) = sent_count s
              \<and> index (state (run s es)) = index (state s)
              \<and> gcode_lines (state (run s es)) = gcode_lines (state s)"
    using run_done [OF _ assms, of es] by blast
  have "list_all (\<lambda>e. \<not> loads_program e) (replicate n Tick)"
    by (simp add: list_all_iff)
  from run_done [OF this assms]
  have c: "sent_count (run s (replicate n Tick)) = sent_count s" by simp
  have d: "\<not> ok_to_send (state s) \<longrightarrow> run s (replicate n Tick) = s"
    using ticks_gate_closed by blast
  from a b c d ticks_done [OF assms, of n] show ?thesis by blast
qed

theorem C7_completion_witness:
  "int (length (gcode_lines (state demo_done))) \<le> index (state demo_done)
   \<and> running (state demo_done) \<and> \<not> paused (state demo_done) \<and> ok_to_send (state demo_done)
   \<and> (case tick demo_done of Inl err \<Rightarrow> False | Inr s' \<Rightarrow> \<not> running (state s'))
   \<and> list_all (\<lambda>e. \<not> loads_program e) [Tick, LineReceived ''ok'', Start, Tick]
   \<and> sent_count (run demo_done [Tick, LineReceived ''ok'', Start, Tick]) = sent_count demo_done
   \<and> sent_count (run demo_done (replicate 5 Tick)) = sent_count demo_done
   \<and> sent_count demo_done = 2
   \<and> int (length (gcode_lines (state demo_last_sent))) \<le> index (state demo_last_sent)
   \<and> \<not> ok_to_send (state demo_last_sent)
   \<and> run demo_last_sent (replicate 5 Tick) = demo_last_sent"
proof -
  have h: "int (length (gcode_lines (state demo_done))) \<le> index (state demo_done)"
    by code_simp
  have r: "running (state demo_done) \<and> \<not> paused (state demo_done) \<and> ok_to_send (state demo_done)
           \<and> list_all (\<lambda>e. \<not> loads_program e) [Tick, LineReceived ''ok'', Start, Tick]
           \<and> sent_count demo_done = 2"
    by code_simp
  have h': "int (length (gcode_lines (state demo_last_sent))) \<le> index (state demo_last_sent)"
    by code_simp
  have r': "\<not> ok_to_send (state demo_last_sent)"
    by code_simp
  from r C7_completion [OF h, of "[Tick, LineReceived ''ok'', Start, Tick]" 5]
  have g: "(case tick demo_done of Inl err \<Rightarrow> False | Inr s' \<Rightarrow> \<not> running (state s'))
   \<and> sent_count (run demo_done [Tick, LineReceived ''ok'', Start, Tick]) = sent_count demo_done
   \<and> sent_count (run demo_done (replicate 5 Tick)) = sent_count demo_done"
    by (cases "tick demo_done") auto
  from r' C7_completion [OF h', of "[]" 5]
  have g': "run demo_last_sent (replicate 5 Tick) = demo_last_sent"
    by blast
  from h r h' r' g g' show ?thesis by blast
qed

theorem C7_counterexample:
  "index (state demo_last_sent) = int (length (gcode_lines (state demo_last_sent)))
   \<and> running (state demo_last_sent)
   \<and> timer_on demo_last_sent
   \<and> running (state (run demo_last_sent (replicate 50 Tick)))"
  by code_simp

section \<open>Ticks without a connection\<close>

lemma worker_stop_idle: "\<not> worker_connected s \<Longrightarrow> map_option worker_stop (worker s) = worker s"
  by (cases "worker s") (auto simp: worker_connected_def is_connected_def worker_stop_def)

lemma ok_line_ok: "is_ok_line ''ok''"
  by code_simp

lemma sim_ack_opens: "0 < sim_acks s \<Longrightarrow> ok_to_send (state (step s SimAck))"
  by (simp add: step_def on_line_received_def ok_line_ok)

text \<open>
  Claim C4, as amended. Let the worker be absent or not connected. A tick puts nothing
  into a queue, and it does not open the gate. A tick of a sender that is not running, is
  paused or has the gate closed changes nothing. A tick of a running sender with the gate
  open and \<open>index\<close> inside the program writes the line \<open>gcode_lines[index]\<close> to the log;
  when the marker of the preview is redrawn, it adds one to \<open>index\<close>, closes the gate and
  schedules a simulated acknowledgment, whose delivery opens the gate again. \<^verbatim>\<open>_tick\<close>
  is left by an exception only when the marker cannot be redrawn; then the line is in the
  log and the state is as before.
\<close>

theorem C4_tick_not_connected:
  assumes "\<not> worker_connected s" and "sender_inv s"
  shows "case tick s of
           Inl (err, s') \<Rightarrow>
             err = ArtistRemoveError \<and> \<not> marker_ok s
             \<and> worker s' = worker s \<and> state s' = state s
             \<and> log s' = log s @ [Sent (gcode_lines (state s) ! nat (index (state s)))]
         | Inr s' \<Rightarrow>
             worker s' = worker s
             \<and> (ok_to_send (state s') \<longrightarrow> ok_to_send (state s))
             \<and> (\<not> running (state s) \<or> paused (state s) \<or> \<not> ok_to_send (state s) \<longrightarrow> s' = s)
             \<and> (running (state s) \<and> \<not> paused (state s) \<and> ok_to_send (state s)
                  \<and> index (state s) < int (length (gcode_lines (state s)))
                 \<longrightarrow> index (state s') = index (state s) + 1
                     \<and> \<not> ok_to_send (state s')
                     \<and> log s' = log s @ [Sent (gcode_lines (state s) ! nat (index (state s)))]
                     \<and> sim_acks s' = sim_acks s + 1
                     \<and> ok_to_send (state (step s' SimAck)))"
proof (cases "eligible s")
  case False
  then have "tick s = Inr s" by (rule tick_idle)
  with False show ?thesis by (auto simp: eligible_def)
next
  case el: True
  show ?thesis
  proof (cases "int (length (gcode_lines (state s))) \<le> index (state s)")
    case True
    with el have "tick s = Inr (stop_sending (s\<lparr>log := log s @ [Info ''Completed.'']\<rparr>))"
      by (simp add: tick_complete)
    with True el worker_stop_idle [OF assms(1)] show ?thesis
      by (simp add: stop_sending_def eligible_def)
  next
    case False
    from assms(2) have i0: "0 \<le> index (state s)" by (simp add: sender_inv_def)
    from False have lt: "index (state s) < int (length (gcode_lines (state s)))" by simp
    from i0 lt have g: "py_getitem (gcode_lines (state s)) (index (state s))
                          = Inr (gcode_lines (state s) ! nat (index (state s)))"
      by (rule py_getitem_in_range)
    note t = tick_send [OF el lt g]
    show ?thesis
    proof (cases "marker_ok s")
      case True
      with t assms(1) el lt show ?thesis
        by (simp add: eligible_def sim_ack_opens)
    next
      case False
      with t assms(1) show ?thesis by simp
    qed
  qed
qed

theorem C4_tick_not_connected_witness:
  "\<not> worker_connected demo_disconnected \<and> sender_inv demo_disconnected
   \<and> running (state demo_disconnected) \<and> \<not> paused (state demo_disconnected)
   \<and> ok_to_send (state demo_disconnected)
   \<and> index (state demo_disconnected) < int (length (gcode_lines (state demo_disconnected)))
   \<and> (case tick demo_disconnected of
         Inl p \<Rightarrow> False
       | Inr s' \<Rightarrow> worker s' = worker demo_disconnected
                   \<and> index (state s') = index (state demo_disconnected) + 1
                   \<and> \<not> ok_to_send (state s')
                   \<and> ok_to_send (state (step s' SimAck)))"
proof -
  have h1: "\<not> worker_connected demo_disconnected"
    by code_simp
  have h2: "sender_inv demo_disconnected"
    by code_simp
  have r: "running (state demo_disconnected) \<and> \<not> paused (state demo_disconnected)
   \<and> ok_to_send (state demo_disconnected)
   \<and> index (state demo_disconnected) < int (length (gcode_lines (state demo_disconnected)))"
    by code_simp
  have m: "marker_ok demo_disconnected"
    by code_simp
  from r m C4_tick_not_connected [OF h1 h2]
  have "case tick demo_disconnected of
         Inl p \<Rightarrow> False
       | Inr s' \<Rightarrow> worker s' = worker demo_disconnected
                   \<and> index (state s') = index (state demo_disconnected) + 1
                   \<and> \<not> ok_to_send (state s')
                   \<and> ok_to_send (state (step s' SimAck))"
    by (cases "tick demo_disconnected") auto
  with h1 h2 r show ?thesis by blast
qed

theorem C4_counterexample:
  "running (state demo_disconnected) \<and> \<not> worker_connected demo_disconnected
   \<and> timer_on demo_disconnected
   \<and> index (state demo_disconnected) = 0
   \<and> index (state (step demo_disconnected Tick)) = 1
   \<and> sent_count (step demo_disconnected Tick) = sent_count demo_disconnected + 1"
  by code_simp

section \<open>Stop, start and the connection\<close>

lemma stop_not_connected: "\<not> worker_connected (stop_sending s)"
  by (cases "worker s")
     (auto simp: worker_connected_def stop_sending_def is_connected_def worker_stop_def)

lemma start_not_connected: "\<not> worker_connected s \<Longrightarrow> start_sending s = Inl NotConnected"
  by (simp add: start_sending_def)







lemma tick_stays_disconnected:
  "\<not> worker_connected s \<Longrightarrow> worker (step s Tick) = worker s \<or> worker (step s Tick) = map_option worker_stop (worker s)"
  by (auto simp: step_def tick_defs stop_sending_def Let_def
        split: if_splits sum.splits prod.splits)

lemma step_stays_disconnected:
  "e \<noteq> RunBegin \<Longrightarrow> \<not> worker_connected s \<Longrightarrow> \<not> worker_connected (step s e)"
proof (cases "e = Tick")
  case True
  assume d: "\<not> worker_connected s"
  from tick_stays_disconnected [OF d] worker_stop_idle [OF d] True d
  show ?thesis by (auto simp: worker_connected_def)
next
  case False
  assume "e \<noteq> RunBegin" and "\<not> worker_connected s"
  with False show ?thesis
    by (cases e; cases "worker s")
       (auto simp: op_defs worker_connected_def is_connected_def worker_stop_def
          new_SerialWorker_def worker_event_def send_line_def
          split: option.splits if_splits sum.splits prod.splits)
qed

lemma run_stays_disconnected:
  "RunBegin \<notin> set es \<Longrightarrow> \<not> worker_connected s \<Longrightarrow> \<not> worker_connected (run s es)"
  by (induction es arbitrary: s) (auto simp: run_Nil run_Cons step_stays_disconnected)

lemma step_stays_down:
  "e \<noteq> Connect \<Longrightarrow> \<not> worker_connected s \<and> past_startup s \<Longrightarrow>
   \<not> worker_connected (step s e) \<and> past_startup (step s e)"
proof (cases "e = Tick")
  case True
  assume d: "\<not> worker_connected s \<and> past_startup s"
  then have d1: "\<not> worker_connected s" by simp
  from tick_stays_disconnected [OF d1] worker_stop_idle [OF d1] True d
  show ?thesis by (auto simp: worker_connected_def past_startup_def)
next
  case False
  assume "e \<noteq> Connect" and "\<not> worker_connected s \<and> past_startup s"
  with False show ?thesis
    by (cases e; cases "worker s")
       (auto simp: op_defs worker_connected_def is_connected_def worker_stop_def
          past_startup_def worker_event_def send_line_def
          split: option.splits if_splits sum.splits prod.splits)
qed

lemma run_stays_down:
  "Connect \<notin> set es \<Longrightarrow> \<not> worker_connected s \<and> past_startup s \<Longrightarrow>
   \<not> worker_connected (run s es) \<and> past_startup (run s es)"
proof (induction es arbitrary: s)
  case Nil
  then show ?case by (simp add: run_Nil)
next
  case (Cons e es)
  then have "e \<noteq> Connect" "Connect \<notin> set es" by auto
  from step_stays_down [OF this(1) Cons.prems(2)] Cons.IH [OF this(2)]
  show ?case by (simp add: run_Cons)
qed

lemma stop_past_startup: "past_startup s \<Longrightarrow> past_startup (stop_sending s)"
  by (cases "worker s") (auto simp: past_startup_def stop_sending_def worker_stop_def)

text \<open>
  Claim C10, as amended. After \<^verbatim>\<open>stop_sending\<close> the worker, if there is one, is not
  connected, and \<^verbatim>\<open>start_sending\<close> is rejected with the warning that there is no
  connection. The same holds after the tick that stops the sender on completion. The
  start stays rejected over every sequence of events in which no worker thread enters
  \<^verbatim>\<open>run\<close>; and if the thread of the stopped worker had entered \<^verbatim>\<open>run\<close> before the stop,
  over every sequence of events without a \<^verbatim>\<open>connect_serial\<close>. The claim itself fails for
  a stop between \<^verbatim>\<open>connect_serial\<close> and the moment the thread enters \<^verbatim>\<open>run\<close>: \<^verbatim>\<open>run\<close>
  sets the flag again, and the start is accepted on the old worker.
\<close>

theorem C10_stop_disconnects:
  "\<not> worker_connected (stop_sending s)
   \<and> start_sending (stop_sending s) = Inl NotConnected
   \<and> (running (state s) \<and> \<not> paused (state s) \<and> ok_to_send (state s)
        \<and> int (length (gcode_lines (state s))) \<le> index (state s) \<longrightarrow>
        (case tick s of
           Inl p \<Rightarrow> False
         | Inr s' \<Rightarrow> \<not> worker_connected s' \<and> start_sending s' = Inl NotConnected))
   \<and> (RunBegin \<notin> set es \<longrightarrow> start_sending (run (stop_sending s) es) = Inl NotConnected)
   \<and> (past_startup s \<and> Connect \<notin> set es \<longrightarrow>
        start_sending (run (stop_sending s) es) = Inl NotConnected)"
proof -
  have a: "\<not> worker_connected (stop_sending s)"
    by (rule stop_not_connected)
  then have b: "start_sending (stop_sending s) = Inl NotConnected"
    by (rule start_not_connected)
  have c: "running (state s) \<and> \<not> paused (state s) \<and> ok_to_send (state s)
        \<and> int (length (gcode_lines (state s))) \<le> index (state s) \<longrightarrow>
        (case tick s of
           Inl p \<Rightarrow> False
         | Inr s' \<Rightarrow> \<not> worker_connected s' \<and> start_sending s' = Inl NotConnected)"
  proof
    assume h: "running (state s) \<and> \<not> paused (state s) \<and> ok_to_send (state s)
        \<and> int (length (gcode_lines (state s))) \<le> index (state s)"
    let ?s = "s\<lparr>log := log s @ [Info ''Completed.'']\<rparr>"
    from h have "eligible s" by (simp add: eligible_def)
    with h have t: "tick s = Inr (stop_sending ?s)" by (simp add: tick_complete)
    have "\<not> worker_connected (stop_sending ?s)" by (rule stop_not_connected)
    moreover from this have "start_sending (stop_sending ?s) = Inl NotConnected"
      by (rule start_not_connected)
    ultimately show "case tick s of
           Inl p \<Rightarrow> False
         | Inr s' \<Rightarrow> \<not> worker_connected s' \<and> start_sending s' = Inl NotConnected"
      unfolding t by (simp only: sum.case simp_thms)
  qed
  have d: "RunBegin \<notin> set es \<longrightarrow> start_sending (run (stop_sending s) es) = Inl NotConnected"
    using run_stays_disconnected [OF _ a, of es] start_not_connected by blast
  have e: "past_startup s \<and> Connect \<notin> set es \<longrightarrow>
        start_sending (run (stop_sending s) es) = Inl NotConnected"
  proof
    assume h: "past_startup s \<and> Connect \<notin> set es"
    then have "\<not> worker_connected (stop_sending s) \<and> past_startup (stop_sending s)"
      using a stop_past_startup by blast
    with h have "\<not> worker_connected (run (stop_sending s) es)"
      using run_stays_down [of es "stop_sending s"] by blast
    then show "start_sending (run (stop_sending s) es) = Inl NotConnected"
      by (rule start_not_connected)
  qed
  from a b c d e show ?thesis by blast
qed

theorem C10_stop_disconnects_witness:
  "worker_connected demo_started \<and> past_startup demo_started
   \<and> RunBegin \<notin> set [Start, Tick, Disconnect, RunExit, Connect, OpenGcode (Some demo_text) True,
                        Start]
   \<and> start_sending (run (stop_sending demo_started)
         [Start, Tick, Disconnect, RunExit, Connect, OpenGcode (Some demo_text) True, Start])
       = Inl NotConnected
   \<and> Connect \<notin> set [Start, Tick, RunExit, RunBegin, Start]
   \<and> start_sending (run (stop_sending demo_started) [Start, Tick, RunExit, RunBegin, Start])
       = Inl NotConnected
   \<and> running (state demo_done) \<and> \<not> paused (state demo_done) \<and> ok_to_send (state demo_done)
   \<and> int (length (gcode_lines (state demo_done))) \<le> index (state demo_done)
   \<and> worker_connected demo_done
   \<and> (case tick demo_done of Inl p \<Rightarrow> False | Inr s' \<Rightarrow> \<not> worker_connected s')
   \<and> (case start_sending (run (stop_sending demo_started) [RunExit, Connect, RunBegin]) of
         Inl w \<Rightarrow> False
       | Inr s1 \<Rightarrow> running (state s1))"
proof -
  have h1: "past_startup demo_started
   \<and> RunBegin \<notin> set [Start, Tick, Disconnect, RunExit, Connect, OpenGcode (Some demo_text) True,
                        Start]
   \<and> Connect \<notin> set [Start, Tick, RunExit, RunBegin, Start]"
    by code_simp
  have h2: "running (state demo_done) \<and> \<not> paused (state demo_done) \<and> ok_to_send (state demo_done)
   \<and> int (length (gcode_lines (state demo_done))) \<le> index (state demo_done)"
    by code_simp
  have r: "worker_connected demo_started \<and> worker_connected demo_done
   \<and> (case start_sending (run (stop_sending demo_started) [RunExit, Connect, RunBegin]) of
         Inl w \<Rightarrow> False
       | Inr s1 \<Rightarrow> running (state s1))"
    by code_simp
  from h1 C10_stop_disconnects [of demo_started
      "[Start, Tick, Disconnect, RunExit, Connect, OpenGcode (Some demo_text) True, Start]"]
  have g1: "start_sending (run (stop_sending demo_started)
         [Start, Tick, Disconnect, RunExit, Connect, OpenGcode (Some demo_text) True, Start])
       = Inl NotConnected"
    by blast
  from h1 C10_stop_disconnects [of demo_started "[Start, Tick, RunExit, RunBegin, Start]"]
  have g2: "start_sending (run (stop_sending demo_started) [Start, Tick, RunExit, RunBegin, Start])
       = Inl NotConnected"
    by blast
  from h2 C10_stop_disconnects [of demo_done "[]"]
  have g3: "case tick demo_done of Inl p \<Rightarrow> False | Inr s' \<Rightarrow> \<not> worker_connected s'"
    by (cases "tick demo_done") simp_all
  from h1 h2 r g1 g2 g3 show ?thesis by blast
qed

theorem C10_counterexample:
  "\<not> worker_connected demo_early_stop
   \<and> \<not> running (state demo_early_stop)
   \<and> Connect \<notin> set [RunBegin, Start]
   \<and> worker_connected (run demo_early_stop [RunBegin])
   \<and> (case start_sending (run demo_early_stop [RunBegin]) of
         Inl w \<Rightarrow> False
       | Inr s1 \<Rightarrow> running (state s1))
   \<and> running (state (run demo_early_stop [RunBegin, Start]))"
  by code_simp

section \<open>The tool position\<close>

text \<open>
  Claim C5 at the two-line program of the specification's scenario. The first line,
  \<^verbatim>\<open>G0 X10\<close>, puts the marker at (10, 0, 0). The second line, \<^verbatim>\<open>G1 Y5 F100\<close>, has no
  X word, and the marker goes to (0, 5, 0): x falls back to 0. The claim says that x
  keeps the value 10, as the preview's own path in \<^verbatim>\<open>plot_gcode\<close> does with
  \<^verbatim>\<open>get("X", x)\<close>.
\<close>

theorem C5_tool_marker_falls_back:
  "tool_marker (run demo_started [Tick]) = Some (10, 0, 0)
   \<and> tool_marker (run demo_started [Tick, LineReceived ''ok'', Tick]) = Some (0, 5, 0)
   \<and> gcode_lines (state demo_started) = [''G0 X10'', ''G1 Y5 F100'']
   \<and> tool_position ''G1 Y5 F100'' = (0, 5, 0)"
  by code_simp

end
